theory Spec2Isabelle
  imports Main "HOL-Library.Extended_Nat" "HOL-Library.Word"
begin

section \<open>Values\<close>

text \<open>
  The composer receives arbitrary JavaScript values (\<open>unknown\<close>).  The datatype below has one
  constructor for every kind of value that the source tells apart.

  \<^item> A string is a list of code units; only code units below 256 are represented.
  \<^item> \<open>Num\<close> holds the integers from \<open>- 2^53\<close> to \<open>2^53 - 1\<close>, as a word of 54 bits read
    with its sign.  Each of them is a number of its own, and its conversion to a string is
    its decimal numeral.  \<open>OtherNum\<close> holds every other number (a fraction, a number of
    larger magnitude, an infinity, \<open>NaN\<close>); it carries the string that the conversion of
    the number yields, such as \<open>1e+21\<close>.  A numeral outside the range of \<open>Num\<close> wraps
    around and so does not stand for the number it names; that number is an \<open>OtherNum\<close>.
  \<^item> \<open>Date\<close>, \<open>Buffer\<close>, \<open>View\<close> (any other \<open>ArrayBufferView\<close>) and \<open>Obj\<close> (an object that is
    none of the others and carries no box key) are objects whose conversion to a string is fixed by
    the host; each one carries the string that its \<open>toString\<close> returns, and has no
    \<open>valueOf\<close> of its own that would be used instead.
  \<^item> \<open>Fn src r\<close> is a callable with source text \<open>src\<close> that returns \<open>r\<close> when it is invoked with
    the function \<open>subsql\<close>.  Callables that throw, do not return, or return a cyclic structure
    are not represented.
  \<^item> \<open>Identifier\<close>, \<open>List\<close>, \<open>Unsafe\<close> and \<open>Subsql\<close> are the four boxes.  The box key is a symbol
    private to the module, so these are the only values that carry it, and their \<open>type\<close>
    field is one of the four strings below.
\<close>

datatype jsval =
    Str string
  | Num "54 word"
  | OtherNum string
  | Bool bool
  | Null
  | Undefined
  | Date string
  | Buffer string
  | View string
  | Obj string
  | Arr "jsval list"
  | Fn string jsval
  | Identifier string
  | List "jsval list" string
  | Unsafe jsval
  | Subsql "string list" "jsval list"

text \<open>
  The errors, named as the specification names them.  \<open>sql\<close> and \<open>template\<close> throw a
  \<open>TypeError\<close> when their first argument is not an array (\<open>MalformedInvocation\<close>);
  \<open>unwrap\<close> throws a \<open>TypeError\<close> on a value that is not a box (\<open>UnboxingError\<close>); the
  last branch of \<open>processParam\<close> throws a \<open>RangeError\<close> for a value it does not accept
  (\<open>UnsupportedValueType\<close>); and the loop of \<open>process\<close> throws a \<open>RangeError\<close> when
  parameters are left at the last fragment (\<open>ParameterCountMismatch\<close>).
\<close>

datatype error =
    MalformedInvocation
  | UnboxingError
  | UnsupportedValueType
  | ParameterCountMismatch

record SqlQueryObject =
  q_text :: string
  q_values :: "jsval list"

text \<open>The three variables \<open>text\<close>, \<open>values\<close> and \<open>index\<close> that \<open>processParam\<close> closes over.\<close>

record pstate =
  s_text :: string
  s_values :: "jsval list"
  s_index :: nat

subsection \<open>Characters and numbers as text\<close>

definition dquote :: char where
  "dquote = CHR 0x22"

definition newline :: char where
  "newline = CHR 0x0A"

definition digit_char :: "nat \<Rightarrow> char" where
  "digit_char d = ''0123456789'' ! d"

function show_nat :: "nat \<Rightarrow> string" where
  "show_nat n = (if n < 10 then [digit_char n] else show_nat (n div 10) @ [digit_char (n mod 10)])"
  by pat_completeness auto
termination
  by (relation "measure id") auto

declare show_nat.simps [simp del]

definition show_int :: "int \<Rightarrow> string" where
  "show_int i = (if i < 0 then CHR ''-'' # show_nat (nat (- i)) else show_nat (nat i))"

fun join :: "string \<Rightarrow> string list \<Rightarrow> string" where
  "join sep [] = []"
| "join sep [p] = p"
| "join sep (p # q # ps) = p @ sep @ join sep (q # ps)"

subsection \<open>Escaping\<close>

text \<open>\<open>str.replace(/"/g, '""')\<close>: a scan from left to right that doubles each double quote.\<close>

fun replace_dquotes :: "string \<Rightarrow> string" where
  "replace_dquotes [] = []"
| "replace_dquotes (c # cs) =
     (if c = dquote then dquote # dquote # replace_dquotes cs else c # replace_dquotes cs)"

definition escapeIdentifier :: "string \<Rightarrow> string" where
  "escapeIdentifier str = [dquote] @ replace_dquotes str @ [dquote]"

subsection \<open>Boxes\<close>

definition isBox :: "jsval \<Rightarrow> bool" where
  "isBox v = (case v of Identifier _ \<Rightarrow> True | List _ _ \<Rightarrow> True | Unsafe _ \<Rightarrow> True
                | Subsql _ _ \<Rightarrow> True | _ \<Rightarrow> False)"

text \<open>
  \<open>unwrap\<close> returns the payload of a box and throws on any other value.  A box is
  represented by its payload, so the payload returned is the value itself.  The processor
  calls \<open>unwrap\<close> only on values that passed one of the four tests below.
\<close>

definition unwrap :: "jsval \<Rightarrow> error + jsval" where
  "unwrap v = (if isBox v then Inr v else Inl UnboxingError)"

text \<open>The \<open>type\<close> field of the payload that \<open>unwrap\<close> returns for a box.\<close>

definition box_type :: "jsval \<Rightarrow> string" where
  "box_type v = (case v of Identifier _ \<Rightarrow> ''identifier'' | List _ _ \<Rightarrow> ''list''
                   | Unsafe _ \<Rightarrow> ''unsafe'' | Subsql _ _ \<Rightarrow> ''subsql'' | _ \<Rightarrow> [])"

definition isIdentifier :: "jsval \<Rightarrow> bool" where
  "isIdentifier v = (isBox v \<and> box_type v = ''identifier'')"

definition isList :: "jsval \<Rightarrow> bool" where
  "isList v = (isBox v \<and> box_type v = ''list'')"

definition isUnsafe :: "jsval \<Rightarrow> bool" where
  "isUnsafe v = (isBox v \<and> box_type v = ''unsafe'')"

definition isSubsql :: "jsval \<Rightarrow> bool" where
  "isSubsql v = (isBox v \<and> box_type v = ''subsql'')"

definition identifier' :: "string \<Rightarrow> jsval" where
  "identifier' v = Identifier v"

text \<open>The optional second argument of \<open>list\<close> is \<open>None\<close> when the caller leaves it out.\<close>

definition list :: "jsval list \<Rightarrow> string option \<Rightarrow> jsval" where
  "list items separator =
     List items (case separator of None \<Rightarrow> '', '' | Some s \<Rightarrow> s)"

definition unsafe :: "jsval \<Rightarrow> jsval" where
  "unsafe v = Unsafe v"

definition subsql :: "string list \<Rightarrow> jsval list \<Rightarrow> jsval" where
  "subsql fragments params = Subsql fragments params"

definition identifiers :: "string list \<Rightarrow> string option \<Rightarrow> jsval" where
  "identifiers vs separator = list (map identifier' vs) separator"

text \<open>
  \<open>template\<close> returns the callable \<open>(fn) => fn(fragments, ...args)\<close>: invoked with
  \<open>subsql\<close>, it returns the bundle of its fragments and arguments.
\<close>

definition template :: "string list \<Rightarrow> jsval list \<Rightarrow> jsval" where
  "template fragments args = Fn ''(fn) => fn(fragments, ...args)'' (subsql fragments args)"

subsection \<open>The literal classifier\<close>

definition typeof :: "jsval \<Rightarrow> string" where
  "typeof v = (case v of Str _ \<Rightarrow> ''string'' | Num _ \<Rightarrow> ''number''
                | OtherNum _ \<Rightarrow> ''number'' | Bool _ \<Rightarrow> ''boolean''
                | Undefined \<Rightarrow> ''undefined'' | Fn _ _ \<Rightarrow> ''function'' | _ \<Rightarrow> ''object'')"

definition instanceof_Date :: "jsval \<Rightarrow> bool" where
  "instanceof_Date v = (case v of Date _ \<Rightarrow> True | _ \<Rightarrow> False)"

definition instanceof_Buffer :: "jsval \<Rightarrow> bool" where
  "instanceof_Buffer v = (case v of Buffer _ \<Rightarrow> True | _ \<Rightarrow> False)"

text \<open>A \<open>Buffer\<close> is a \<open>Uint8Array\<close>, hence a view as well.\<close>

definition isView :: "jsval \<Rightarrow> bool" where
  "isView v = (case v of Buffer _ \<Rightarrow> True | View _ \<Rightarrow> True | _ \<Rightarrow> False)"

definition isLiteral :: "jsval \<Rightarrow> bool" where
  "isLiteral v =
     (typeof v = ''string'' \<or> typeof v = ''number'' \<or> typeof v = ''boolean'' \<or>
      v = Null \<or> v = Undefined \<or> instanceof_Date v \<or> instanceof_Buffer v \<or> isView v)"

subsection \<open>Conversion to a string\<close>

text \<open>
  What \<open>text += value\<close> appends.  A string is appended as it is; an integer of \<open>Num\<close>
  gives its decimal numeral, with a minus sign when it is negative; a boolean, \<open>null\<close> and
  \<open>undefined\<close> give their names; an array is joined with commas, \<open>null\<close> and
  \<open>undefined\<close> elements giving the empty string; a callable gives its source text; a box
  is an object without a \<open>toString\<close> of its own.
\<close>

fun toText :: "jsval \<Rightarrow> string" where
  "toText (Str s) = s"
| "toText (Num n) = show_int (sint n)"
| "toText (OtherNum t) = t"
| "toText (Bool b) = (if b then ''true'' else ''false'')"
| "toText Null = ''null''"
| "toText Undefined = ''undefined''"
| "toText (Date t) = t"
| "toText (Buffer t) = t"
| "toText (View t) = t"
| "toText (Obj t) = t"
| "toText (Arr xs) =
     join '','' (map (\<lambda>x. if x = Null \<or> x = Undefined then [] else toText x) xs)"
| "toText (Fn src r) = src"
| "toText (Identifier v) = ''[object Object]''"
| "toText (List items separator) = ''[object Object]''"
| "toText (Unsafe v) = ''[object Object]''"
| "toText (Subsql fragments params) = ''[object Object]''"

section \<open>The template processor\<close>

text \<open>
  \<open>processParam\<close> is the closure of the source; the state it updates is passed in and
  returned.  \<open>processItems\<close> is the loop of the list branch and \<open>processLoop\<close> the loop of
  \<open>process\<close>, each on the items, fragments and parameters from position \<open>i\<close> on: position
  \<open>i\<close> is the last one when nothing follows it, \<open>params.length > i\<close> holds when parameters are
  left, and \<open>params[i]\<close> is \<open>undefined\<close> when none is.
\<close>

fun processParam :: "jsval \<Rightarrow> pstate \<Rightarrow> error + pstate"
  and processItems :: "jsval list \<Rightarrow> string \<Rightarrow> pstate \<Rightarrow> error + pstate"
  and processLoop :: "string list \<Rightarrow> jsval list \<Rightarrow> pstate \<Rightarrow> error + pstate"
  and process :: "string list \<Rightarrow> jsval list \<Rightarrow> nat \<Rightarrow> error + SqlQueryObject"
where
  "processParam (Fn src result) st =
     (case result of
        Subsql fragments params \<Rightarrow>
          (case process fragments params (s_index st) of
             Inl e \<Rightarrow> Inl e
           | Inr processed \<Rightarrow>
               Inr \<lparr>s_text = s_text st @ q_text processed,
                    s_values = s_values st @ q_values processed,
                    s_index = s_index st + length (q_values processed)\<rparr>)
      | _ \<Rightarrow> processParam result st)"
| "processParam (Identifier v) st = Inr (st\<lparr>s_text := s_text st @ escapeIdentifier v\<rparr>)"
| "processParam (List items separator) st = processItems items separator st"
| "processParam (Unsafe v) st = Inr (st\<lparr>s_text := s_text st @ toText v\<rparr>)"
| "processParam param st =
     (if isLiteral param
      then Inr \<lparr>s_text = s_text st @ ''$'' @ show_nat (s_index st),
                s_values = s_values st @ [param],
                s_index = s_index st + 1\<rparr>
      else Inl UnsupportedValueType)"
| "processItems [] separator st = Inr st"
| "processItems (item # rest) separator st =
     (case processParam item st of
        Inl e \<Rightarrow> Inl e
      | Inr st' \<Rightarrow>
          processItems rest separator
            (if rest \<noteq> [] then st'\<lparr>s_text := s_text st' @ separator\<rparr> else st'))"
| "processLoop [] params st = Inr st"
| "processLoop [fragment] params st =
     (if params \<noteq> [] then Inl ParameterCountMismatch
      else Inr (st\<lparr>s_text := s_text st @ fragment\<rparr>))"
| "processLoop (fragment # next # fragments) [] st =
     (case processParam Undefined (st\<lparr>s_text := s_text st @ fragment\<rparr>) of
        Inl e \<Rightarrow> Inl e
      | Inr st' \<Rightarrow> processLoop (next # fragments) [] st')"
| "processLoop (fragment # next # fragments) (param # params) st =
     (case processParam param (st\<lparr>s_text := s_text st @ fragment\<rparr>) of
        Inl e \<Rightarrow> Inl e
      | Inr st' \<Rightarrow> processLoop (next # fragments) params st')"
| "process fragments params index =
     (case processLoop fragments params \<lparr>s_text = [], s_values = [], s_index = index\<rparr> of
        Inl e \<Rightarrow> Inl e
      | Inr st \<Rightarrow> Inr \<lparr>q_text = s_text st, q_values = s_values st\<rparr>)"

section \<open>The formatter and the composer\<close>

text \<open>
  The white space of \<open>\s\<close> and of \<open>trimStart\<close> among the code units below 256: tab, line feed,
  vertical tab, form feed, carriage return, space and no-break space.
\<close>

definition isSpace :: "char \<Rightarrow> bool" where
  "isSpace c =
     (c = CHR 0x09 \<or> c = CHR 0x0A \<or> c = CHR 0x0B \<or> c = CHR 0x0C \<or> c = CHR 0x0D \<or>
      c = CHR 0x20 \<or> c = CHR 0xA0)"

text \<open>\<open>sql.split("\n")\<close>: the empty string gives one empty piece.\<close>

fun split_nl :: "string \<Rightarrow> string list" where
  "split_nl [] = [[]]"
| "split_nl (c # cs) =
     (if c = newline then [] # split_nl cs
      else (case split_nl cs of [] \<Rightarrow> [[c]] | p # ps \<Rightarrow> (c # p) # ps))"

text \<open>\<open>p.match(/^\s*$/)\<close> on a piece, which holds no line feed.\<close>

definition blank :: "string \<Rightarrow> bool" where
  "blank p = list_all isSpace p"

definition trimStart :: "string \<Rightarrow> string" where
  "trimStart p = dropWhile isSpace p"

text \<open>\<open>Math.min(...xs)\<close> is \<open>Infinity\<close> for no argument; \<open>p.slice(Infinity)\<close> is empty.\<close>

fun math_min :: "nat list \<Rightarrow> enat" where
  "math_min [] = \<infinity>"
| "math_min (x # xs) = min (enat x) (math_min xs)"

fun slice :: "enat \<Rightarrow> string \<Rightarrow> string" where
  "slice (enat n) p = drop n p"
| "slice \<infinity> p = []"

definition format :: "string \<Rightarrow> string" where
  "format sql =
     (let pieces = filter (\<lambda>p. \<not> blank p) (split_nl sql);
          leadingSpace = math_min (map (\<lambda>p. length p - length (trimStart p)) pieces)
      in join [newline] (map (slice leadingSpace) pieces))"

text \<open>
  \<open>fragments\<close> is a list here, so the test \<open>Array.isArray(fragments)\<close> holds and
  \<open>MalformedInvocation\<close> is not raised; the cursor starts at its default, 1.
\<close>

definition sql :: "string list \<Rightarrow> jsval list \<Rightarrow> error + SqlQueryObject" where
  "sql fragments args =
     (case process fragments args 1 of
        Inl e \<Rightarrow> Inl e
      | Inr q \<Rightarrow> Inr \<lparr>q_text = format (q_text q), q_values = q_values q\<rparr>)"


section \<open>The output as a sequence of pieces\<close>

text \<open>
  A second reading of the processor, used to state where each part of the output text
  comes from.  The text is kept as the sequence of the pieces that were appended: \<open>Raw s\<close>
  is text taken from a fragment, a separator, an escaped identifier or an unsafe payload;
  \<open>Hole n v\<close> is the placeholder \<open>$n\<close> appended by the literal branch when it pushed
  \<open>v\<close>.  The functions follow \<open>processParam\<close>, its list loop and the loop of \<open>process\<close>
  branch by branch; they take the cursor and return the pieces appended.
\<close>

datatype piece = Raw string | Hole nat jsval

fun render_piece :: "piece \<Rightarrow> string" where
  "render_piece (Raw s) = s"
| "render_piece (Hole n v) = ''$'' @ show_nat n"

definition render :: "piece list \<Rightarrow> string" where
  "render ps = concat (map render_piece ps)"

fun holes :: "piece list \<Rightarrow> (nat \<times> jsval) list" where
  "holes [] = []"
| "holes (Raw s # ps) = holes ps"
| "holes (Hole n v # ps) = (n, v) # holes ps"

fun piecesParam :: "jsval \<Rightarrow> nat \<Rightarrow> error + piece list"
  and piecesItems :: "jsval list \<Rightarrow> string \<Rightarrow> nat \<Rightarrow> error + piece list"
  and piecesLoop :: "string list \<Rightarrow> jsval list \<Rightarrow> nat \<Rightarrow> error + piece list"
where
  "piecesParam (Fn src result) i =
     (case result of
        Subsql fragments params \<Rightarrow> piecesLoop fragments params i
      | _ \<Rightarrow> piecesParam result i)"
| "piecesParam (Identifier v) i = Inr [Raw (escapeIdentifier v)]"
| "piecesParam (List items separator) i = piecesItems items separator i"
| "piecesParam (Unsafe v) i = Inr [Raw (toText v)]"
| "piecesParam param i =
     (if isLiteral param then Inr [Hole i param] else Inl UnsupportedValueType)"
| "piecesItems [] separator i = Inr []"
| "piecesItems (item # rest) separator i =
     (case piecesParam item i of
        Inl e \<Rightarrow> Inl e
      | Inr ps \<Rightarrow>
          (case piecesItems rest separator (i + length (holes ps)) of
             Inl e \<Rightarrow> Inl e
           | Inr qs \<Rightarrow> Inr (ps @ (if rest \<noteq> [] then [Raw separator] else []) @ qs)))"
| "piecesLoop [] params i = Inr []"
| "piecesLoop [fragment] params i =
     (if params \<noteq> [] then Inl ParameterCountMismatch else Inr [Raw fragment])"
| "piecesLoop (fragment # next # fragments) [] i =
     (case piecesParam Undefined i of
        Inl e \<Rightarrow> Inl e
      | Inr ps \<Rightarrow>
          (case piecesLoop (next # fragments) [] (i + length (holes ps)) of
             Inl e \<Rightarrow> Inl e
           | Inr qs \<Rightarrow> Inr (Raw fragment # ps @ qs)))"
| "piecesLoop (fragment # next # fragments) (param # params) i =
     (case piecesParam param i of
        Inl e \<Rightarrow> Inl e
      | Inr ps \<Rightarrow>
          (case piecesLoop (next # fragments) params (i + length (holes ps)) of
             Inl e \<Rightarrow> Inl e
           | Inr qs \<Rightarrow> Inr (Raw fragment # ps @ qs)))"

definition pieces :: "string list \<Rightarrow> jsval list \<Rightarrow> nat \<Rightarrow> error + piece list" where
  "pieces fragments params index = piecesLoop fragments params index"

text \<open>The state after the pieces \<open>ps\<close> have been appended to the state \<open>st\<close>.\<close>

definition after_pieces :: "pstate \<Rightarrow> piece list \<Rightarrow> pstate" where
  "after_pieces st ps =
     \<lparr>s_text = s_text st @ render ps, s_values = s_values st @ map snd (holes ps),
      s_index = s_index st + length (holes ps)\<rparr>"

section \<open>Notions used to state the properties\<close>

text \<open>
  The pairing contract, at every level: each deferred bundle that a callable returns has one
  fragment more than it has parameters, in the parameters of bundles and the items of lists
  as well.
\<close>

fun paired :: "jsval \<Rightarrow> bool" where
  "paired (Fn src result) = paired result"
| "paired (Subsql fragments params) =
     (length fragments = Suc (length params) \<and> list_all paired params)"
| "paired (List items separator) = list_all paired items"
| "paired v = True"

text \<open>
  The items of a list processed one after the other, each on an empty text and an empty
  value list, the cursor passed on from one item to the next: the text and the values that
  each item yields.
\<close>

fun each_item :: "jsval list \<Rightarrow> nat \<Rightarrow> error + (string \<times> jsval list) list" where
  "each_item [] i = Inr []"
| "each_item (item # rest) i =
     (case processParam item \<lparr>s_text = [], s_values = [], s_index = i\<rparr> of
        Inl e \<Rightarrow> Inl e
      | Inr d \<Rightarrow>
          (case each_item rest (s_index d) of
             Inl e \<Rightarrow> Inl e
           | Inr ds \<Rightarrow> Inr ((s_text d, s_values d) # ds)))"

text \<open>
  The indices of the placeholders that appear in a text, read as the executor reads them: a
  dollar sign directly followed by decimal digits, with the longest run of digits.
\<close>

definition isDigit :: "char \<Rightarrow> bool" where
  "isDigit c = (c \<in> set ''0123456789'')"

definition read_nat :: "string \<Rightarrow> nat" where
  "read_nat ds = foldl (\<lambda>n c. 10 * n + (of_char c - 48)) 0 ds"

fun placeholder_indices :: "string \<Rightarrow> nat list" where
  "placeholder_indices [] = []"
| "placeholder_indices (c # cs) =
     (if c = CHR ''$'' \<and> takeWhile isDigit cs \<noteq> []
      then read_nat (takeWhile isDigit cs) # placeholder_indices cs
      else placeholder_indices cs)"

text \<open>
  The words of a text: its maximal runs of characters that are not white space, from left to
  right.  A placeholder is part of one word.
\<close>

function wordsOf :: "string \<Rightarrow> string list" where
  "wordsOf [] = []"
| "wordsOf (c # cs) =
     (if isSpace c then wordsOf cs
      else takeWhile (\<lambda>x. \<not> isSpace x) (c # cs) # wordsOf (dropWhile (\<lambda>x. \<not> isSpace x) cs))"
  by pat_completeness auto
termination
  by (relation "measure length") (auto simp: length_dropWhile_le less_Suc_eq_le)

text \<open>
  The formatter as the specification words it: the width is computed over the lines that are
  not blank, and that many characters are stripped from every line.
\<close>

definition format_every_line :: "string \<Rightarrow> string" where
  "format_every_line s =
     (let lines = split_nl s;
          width = math_min (map (\<lambda>p. length p - length (trimStart p))
                     (filter (\<lambda>p. \<not> blank p) lines))
      in join [newline] (map (slice width) lines))"

text \<open>
  Pieces whose text cannot be taken for a placeholder, and cannot change one: no raw piece
  holds a dollar sign, and no digit directly follows a placeholder.
\<close>

definition starts_with_digit :: "string \<Rightarrow> bool" where
  "starts_with_digit s = (case s of [] \<Rightarrow> False | c # cs \<Rightarrow> isDigit c)"

fun clean :: "piece list \<Rightarrow> bool" where
  "clean [] = True"
| "clean (Raw s # ps) = (CHR ''$'' \<notin> set s \<and> clean ps)"
| "clean (Hole n v # ps) = (\<not> starts_with_digit (render ps) \<and> clean ps)"

section \<open>The processor and the pieces agree\<close>

lemma holes_append [simp]: "holes (ps @ qs) = holes ps @ holes qs"
  by (induction ps rule: holes.induct) simp_all

lemma render_append [simp]: "render (ps @ qs) = render ps @ render qs"
  by (simp add: render_def)

lemma render_simps [simp]:
  "render [] = []" "render (p # ps) = render_piece p @ render ps"
  by (simp_all add: render_def)

lemma map_sum_Inl_iff: "map_sum f g x = Inl a \<longleftrightarrow> (\<exists>y. x = Inl y \<and> a = f y)"
  by (cases x) auto

lemma map_sum_Inr_iff: "map_sum f g x = Inr b \<longleftrightarrow> (\<exists>y. x = Inr y \<and> b = g y)"
  by (cases x) auto

lemma Inl_map_sum_iff: "Inl a = map_sum f g x \<longleftrightarrow> (\<exists>y. x = Inl y \<and> a = f y)"
  by (cases x) auto

lemma Inr_map_sum_iff: "Inr b = map_sum f g x \<longleftrightarrow> (\<exists>y. x = Inr y \<and> b = g y)"
  by (cases x) auto

lemmas map_sum_iffs = map_sum_Inl_iff map_sum_Inr_iff Inl_map_sum_iff Inr_map_sum_iff

text \<open>
  Each function of the processor appends to its state exactly the pieces that its
  counterpart returns, and fails exactly when the counterpart fails, with the same error.
\<close>

lemma process_pieces:
  "processParam v st = map_sum id (after_pieces st) (piecesParam v (s_index st))"
  "processItems xs sep st = map_sum id (after_pieces st) (piecesItems xs sep (s_index st))"
  "processLoop fr ps st = map_sum id (after_pieces st) (piecesLoop fr ps (s_index st))"
  "process fr ps i =
     map_sum id (\<lambda>pcs. \<lparr>q_text = render pcs, q_values = map snd (holes pcs)\<rparr>)
       (piecesLoop fr ps i)"
proof (induction v st and xs sep st and fr ps st and fr ps i
    rule: processParam_processItems_processLoop_process.induct)
  case (1 src result st)
  then show ?case
    by (cases result) (auto simp: after_pieces_def map_sum_iffs split: sum.splits)
qed (auto simp: after_pieces_def map_sum_iffs split: sum.splits)

text \<open>The placeholders among the pieces are numbered upwards from the cursor, without gaps.\<close>

lemma upt_join: "[i..<i + a] @ [i + a..<i + a + b] = [i..<i + (a + b)]"
  using upt_add_eq_append [of i "i + a" b] by (simp add: add.assoc)

lemma numbered_append:
  "map fst hs = [i..<i + length hs] \<Longrightarrow>
   map fst ks = [i + length hs..<i + length hs + length ks] \<Longrightarrow>
   map fst (hs @ ks) = [i..<i + length (hs @ ks)]"
  by (simp add: upt_join)

lemma holes_numbered:
  "piecesParam v i = Inr pcs \<Longrightarrow> map fst (holes pcs) = [i..<i + length (holes pcs)]"
  "piecesItems xs sep i = Inr pcs \<Longrightarrow> map fst (holes pcs) = [i..<i + length (holes pcs)]"
  "piecesLoop fr ps i = Inr pcs \<Longrightarrow> map fst (holes pcs) = [i..<i + length (holes pcs)]"
proof (induction v i and xs sep i and fr ps i arbitrary: pcs and pcs and pcs
    rule: piecesParam_piecesItems_piecesLoop.induct)
  case (1 src result i)
  then show ?case by (cases result) (auto split: sum.splits)
next
  case (7 item rest separator i)
  from "7.prems" obtain ps qs where
    ps: "piecesParam item i = Inr ps" and
    qs: "piecesItems rest separator (i + length (holes ps)) = Inr qs" and
    pcs: "pcs = ps @ (if rest \<noteq> [] then [Raw separator] else []) @ qs"
    by (auto split: sum.splits)
  have "holes pcs = holes ps @ holes qs" using pcs by simp
  with numbered_append [OF "7.IH"(1) [OF ps] "7.IH"(2) [OF ps qs]] show ?case by simp
next
  case (10 fragment nxt fragments i)
  from "10.prems" obtain ps qs where
    ps: "piecesParam Undefined i = Inr ps" and
    qs: "piecesLoop (nxt # fragments) [] (i + length (holes ps)) = Inr qs" and
    pcs: "pcs = Raw fragment # ps @ qs"
    by (auto split: sum.splits simp del: piecesParam.simps)
  have "holes pcs = holes ps @ holes qs" using pcs by simp
  with numbered_append [OF "10.IH"(1) [OF ps] "10.IH"(2) [OF ps qs]] show ?case by simp
next
  case (11 fragment nxt fragments param params i)
  from "11.prems" obtain ps qs where
    ps: "piecesParam param i = Inr ps" and
    qs: "piecesLoop (nxt # fragments) params (i + length (holes ps)) = Inr qs" and
    pcs: "pcs = Raw fragment # ps @ qs"
    by (auto split: sum.splits)
  have "holes pcs = holes ps @ holes qs" using pcs by simp
  with numbered_append [OF "11.IH"(1) [OF ps] "11.IH"(2) [OF ps qs]] show ?case by simp
qed (auto split: if_splits)

section \<open>Escaping and the simple branches\<close>

lemma replace_dquotes_concat:
  "replace_dquotes s = concat (map (\<lambda>c. if c = dquote then [dquote, dquote] else [c]) s)"
  by (induction s) simp_all

text \<open>
  Claim C2.  \<open>escapeIdentifier raw\<close> is \<open>raw\<close> with every double quote doubled, between one
  pair of double quotes; on \<open>accounts " --\<close> it gives \<open>"accounts "" --"\<close>; and processing an
  Identifier appends exactly this text, leaving the values and the cursor as they were.
\<close>

theorem escapeIdentifier_doubles_quotes:
  "escapeIdentifier raw =
     [dquote] @ concat (map (\<lambda>c. if c = dquote then [dquote, dquote] else [c]) raw) @ [dquote]
   \<and> escapeIdentifier (''accounts '' @ [dquote] @ '' --'') =
       [dquote] @ ''accounts '' @ [dquote, dquote] @ '' --'' @ [dquote]
   \<and> processParam (Identifier raw) st =
       Inr \<lparr>s_text = s_text st @ escapeIdentifier raw, s_values = s_values st,
            s_index = s_index st\<rparr>"
  by (simp add: escapeIdentifier_def replace_dquotes_concat dquote_def)

text \<open>
  Claim C10.  The list constructor called without a separator builds the same List as with
  the separator \<open>", "\<close>.
\<close>

theorem list_default_separator:
  "list items None = list items (Some '', '') \<and> list items None = List items '', ''"
  by (simp add: list_def)

text \<open>
  Claim C4.  \<open>isLiteral\<close> holds exactly of strings, numbers, booleans, \<open>null\<close>,
  \<open>undefined\<close>, dates, buffers and views, and of no plain object, array, function or box;
  a parameter that is not callable, not a box and not such a literal is refused with
  \<open>UnsupportedValueType\<close>.
\<close>

theorem isLiteral_default_deny:
  "isLiteral v =
     (case v of Str _ \<Rightarrow> True | Num _ \<Rightarrow> True | OtherNum _ \<Rightarrow> True | Bool _ \<Rightarrow> True
      | Null \<Rightarrow> True
      | Undefined \<Rightarrow> True | Date _ \<Rightarrow> True | Buffer _ \<Rightarrow> True | View _ \<Rightarrow> True
      | Obj _ \<Rightarrow> False | Arr _ \<Rightarrow> False | Fn _ _ \<Rightarrow> False | Identifier _ \<Rightarrow> False
      | List _ _ \<Rightarrow> False | Unsafe _ \<Rightarrow> False | Subsql _ _ \<Rightarrow> False)
   \<and> (typeof v \<noteq> ''function'' \<and> \<not> isBox v \<and> \<not> isLiteral v \<longrightarrow>
        processParam v st = Inl UnsupportedValueType)"
  by (cases v)
     (simp_all add: isLiteral_def typeof_def instanceof_Date_def instanceof_Buffer_def
        isView_def isBox_def)

theorem isLiteral_default_deny_witness:
  "typeof (Arr [Num 1, Num 2]) \<noteq> ''function'' \<and> \<not> isBox (Arr [Num 1, Num 2]) \<and>
   \<not> isLiteral (Arr [Num 1, Num 2]) \<and>
   processParam (Arr [Num 1, Num 2]) \<lparr>s_text = ''x'', s_values = [], s_index = 1\<rparr>
     = Inl UnsupportedValueType \<and>
   typeof (Obj ''[object Object]'') \<noteq> ''function'' \<and> \<not> isBox (Obj ''[object Object]'') \<and>
   \<not> isLiteral (Obj ''[object Object]'') \<and>
   processParam (Obj ''[object Object]'') \<lparr>s_text = ''x'', s_values = [], s_index = 1\<rparr>
     = Inl UnsupportedValueType"
  using isLiteral_default_deny
      [of "Arr [Num 1, Num 2]" "\<lparr>s_text = ''x'', s_values = [], s_index = 1\<rparr>"]
    isLiteral_default_deny
      [of "Obj ''[object Object]''" "\<lparr>s_text = ''x'', s_values = [], s_index = 1\<rparr>"]
  by (simp add: typeof_def isBox_def)
section \<open>The formatter\<close>

lemma isSpace_newline [simp]: "isSpace newline"
  by (simp add: isSpace_def newline_def)

lemma takeWhile_append_stop: "\<not> P y \<Longrightarrow> takeWhile P (xs @ y # ys) = takeWhile P xs"
  by (induction xs) simp_all

lemma dropWhile_append_stop: "\<not> P y \<Longrightarrow> dropWhile P (xs @ y # ys) = dropWhile P xs @ y # ys"
  by (induction xs) simp_all

lemma wordsOf_split: "isSpace c \<Longrightarrow> wordsOf (a @ c # b) = wordsOf a @ wordsOf b"
proof (induction a rule: wordsOf.induct)
  case 1
  then show ?case by simp
next
  case (2 x xs)
  show ?case
  proof (cases "isSpace x")
    case True
    with 2 show ?thesis by simp
  next
    case False
    have t: "takeWhile (\<lambda>x. \<not> isSpace x) (xs @ c # b) = takeWhile (\<lambda>x. \<not> isSpace x) xs"
      using 2(3) by (simp add: takeWhile_append_stop)
    have d: "dropWhile (\<lambda>x. \<not> isSpace x) (xs @ c # b) = dropWhile (\<lambda>x. \<not> isSpace x) xs @ c # b"
      using 2(3) by (simp add: dropWhile_append_stop)
    from False 2(2) [OF False 2(3)] show ?thesis by (simp add: t d)
  qed
qed

lemma join_split_nl: "join [newline] (split_nl s) = s"
proof (induction s)
  case Nil
  show ?case by simp
next
  case (Cons c cs)
  obtain p ps where sp: "split_nl cs = p # ps" by (cases "split_nl cs") (cases cs, auto split: if_splits list.splits)
  show ?case
  proof (cases "c = newline")
    case True
    with Cons sp show ?thesis by simp
  next
    case False
    with Cons sp show ?thesis by (cases ps) auto
  qed
qed

lemma math_min_attained:
  "xs \<noteq> [] \<Longrightarrow> \<exists>m. math_min xs = enat m \<and> m \<in> set xs \<and> list_all (\<lambda>x. m \<le> x) xs"
proof (induction xs)
  case Nil
  then show ?case by simp
next
  case (Cons x xs)
  show ?case
  proof (cases "xs = []")
    case True
    then show ?thesis by simp
  next
    case False
    with Cons.IH obtain m where m: "math_min xs = enat m" "m \<in> set xs" "list_all (\<lambda>x. m \<le> x) xs"
      by blast
    show ?thesis
    proof (cases "x \<le> m")
      case True
      with m have "math_min (x # xs) = enat x" by (simp add: min_def)
      moreover from True m(3) have "list_all (\<lambda>y. x \<le> y) (x # xs)"
        by (auto simp: list_all_iff)
      ultimately show ?thesis by auto
    next
      case False
      with m have "math_min (x # xs) = enat m" by (simp add: min_def)
      with False m show ?thesis by auto
    qed
  qed
qed

lemma leading_width: "length p - length (trimStart p) = length (takeWhile isSpace p)"
proof -
  have "length p = length (takeWhile isSpace p) + length (dropWhile isSpace p)"
    by (metis length_append takeWhile_dropWhile_id)
  then show ?thesis by (simp add: trimStart_def)
qed

lemma take_leading_spaces:
  "m \<le> length p - length (trimStart p) \<Longrightarrow> list_all isSpace (take m p)"
proof -
  assume "m \<le> length p - length (trimStart p)"
  then have m: "m \<le> length (takeWhile isSpace p)" by (simp add: leading_width)
  have "take m p = take m (takeWhile isSpace p @ dropWhile isSpace p)" by simp
  also have "\<dots> = take m (takeWhile isSpace p)" using m by (simp del: takeWhile_dropWhile_id)
  finally have "set (take m p) \<subseteq> set (takeWhile isSpace p)" by (simp add: set_take_subset)
  then show ?thesis by (auto simp: list_all_iff dest: set_takeWhileD)
qed

lemma split_nl_nonempty: "split_nl s \<noteq> []"
  by (induction s) (auto split: list.splits)

lemma split_nl_no_newline: "p \<in> set (split_nl s) \<Longrightarrow> newline \<notin> set p"
proof (induction s arbitrary: p)
  case Nil
  then show ?case by simp
next
  case (Cons c cs)
  then show ?case
    by (cases "split_nl cs") (auto split: if_splits)
qed

lemma split_nl_no_newline_piece: "newline \<notin> set p \<Longrightarrow> split_nl p = [p]"
  by (induction p) auto

lemma split_nl_append:
  "newline \<notin> set p \<Longrightarrow> split_nl (p @ newline # s) = p # split_nl s"
  by (induction p) auto

lemma split_nl_join:
  "ls \<noteq> [] \<Longrightarrow> list_all (\<lambda>p. newline \<notin> set p) ls \<Longrightarrow> split_nl (join [newline] ls) = ls"
proof (induction "[newline]" ls rule: join.induct)
  case 1
  then show ?case by simp
next
  case (2 p)
  then show ?case by (simp add: split_nl_no_newline_piece)
next
  case (3 p q ps)
  then show ?case by (simp add: split_nl_append)
qed

lemma slice_enat: "slice (enat m) = drop m"
  by (rule ext) simp

lemma format_pieces:
  assumes "kept = filter (\<lambda>p. \<not> blank p) (split_nl t)"
  shows "if kept = [] then format t = []
         else \<exists>m. m \<in> set (map (\<lambda>p. length p - length (trimStart p)) kept) \<and>
                list_all (\<lambda>p. m \<le> length p - length (trimStart p)) kept \<and>
                format t = join [newline] (map (drop m) kept) \<and>
                split_nl (format t) = map (drop m) kept"
proof (cases "kept = []")
  case True
  with assms show ?thesis by (simp add: format_def)
next
  case False
  let ?ws = "map (\<lambda>p. length p - length (trimStart p)) kept"
  from False have "?ws \<noteq> []" by simp
  from math_min_attained [OF this] obtain m where
    m: "math_min ?ws = enat m" "m \<in> set ?ws" "list_all (\<lambda>x. m \<le> x) ?ws" by blast
  have f: "format t = join [newline] (map (drop m) kept)"
    using assms m(1) by (simp add: format_def Let_def slice_enat)
  have "list_all (\<lambda>p. newline \<notin> set p) kept"
    using assms by (auto simp: list_all_iff dest: split_nl_no_newline)
  then have "list_all (\<lambda>p. newline \<notin> set p) (map (drop m) kept)"
    by (auto simp: list_all_iff dest: in_set_dropD)
  with False have "split_nl (join [newline] (map (drop m) kept)) = map (drop m) kept"
    by (intro split_nl_join) simp_all
  with f have s: "split_nl (format t) = map (drop m) kept" by simp
  have l: "list_all (\<lambda>p. m \<le> length p - length (trimStart p)) kept"
    using m(3) by (simp add: list_all_iff)
  have "\<exists>m. m \<in> set (map (\<lambda>p. length p - length (trimStart p)) kept) \<and>
          list_all (\<lambda>p. m \<le> length p - length (trimStart p)) kept \<and>
          format t = join [newline] (map (drop m) kept) \<and>
          split_nl (format t) = map (drop m) kept"
    using m(2) l f s by blast
  with False show ?thesis by simp
qed

text \<open>
  Any reading of a text that falls into the readings of the parts around a white-space
  character is the same before and after the formatter.
\<close>

lemma spaces_neutral:
  assumes sp: "\<And>a c b. isSpace c \<Longrightarrow> f (a @ c # b) = f a @ f b" and e: "f [] = []"
  shows "list_all isSpace ws \<Longrightarrow> f (ws @ s) = f s"
proof (induction ws)
  case Nil
  show ?case by simp
next
  case (Cons c ws)
  then have "isSpace c" "f (ws @ s) = f s" by simp_all
  with sp [of c "[]" "ws @ s"] e show ?case by simp
qed

lemma join_lines_concat:
  assumes sp: "\<And>a c b. isSpace c \<Longrightarrow> f (a @ c # b) = f a @ f b" and e: "f [] = []"
  shows "f (join [newline] ls) = concat (map f ls)"
proof (induction "[newline]" ls rule: join.induct)
  case 1
  show ?case by (simp add: e)
next
  case (2 p)
  show ?case by simp
next
  case (3 p q ps)
  then show ?case using sp [of newline p "join [newline] (q # ps)"] by simp
qed

lemma format_preserves:
  assumes sp: "\<And>a c b. isSpace c \<Longrightarrow> f (a @ c # b) = f a @ f b" and e: "f [] = []"
  shows "f (format t) = f t"
proof -
  define kept where "kept = filter (\<lambda>p. \<not> blank p) (split_nl t)"
  have blank: "f p = []" if "blank p" for p
    using spaces_neutral [of f p "[]", OF sp e] that by (simp add: blank_def e)
  have "concat (map f (filter (\<lambda>p. \<not> blank p) ls)) = concat (map f ls)" for ls
    by (induction ls) (simp_all add: blank)
  then have all: "concat (map f kept) = concat (map f (split_nl t))"
    by (simp add: kept_def)
  have t: "f t = concat (map f (split_nl t))"
    using join_lines_concat [of f "split_nl t", OF sp e] by (simp add: join_split_nl)
  show ?thesis
  proof (cases "kept = []")
    case True
    with format_pieces [OF kept_def] all t show ?thesis by (simp add: e)
  next
    case False
    with format_pieces [OF kept_def] obtain m where
      m: "list_all (\<lambda>p. m \<le> length p - length (trimStart p)) kept"
      and f: "format t = join [newline] (map (drop m) kept)" by auto
    have "f (drop m p) = f p" if "p \<in> set kept" for p
    proof -
      from that m have "list_all isSpace (take m p)"
        by (auto simp: list_all_iff intro: take_leading_spaces [unfolded list_all_iff, rule_format])
      from spaces_neutral [of f "take m p" "drop m p", OF sp e this] show ?thesis by simp
    qed
    then have "map f (map (drop m) kept) = map f kept" by simp
    then show ?thesis
      using all t f join_lines_concat [of f "map (drop m) kept", OF sp e] by (simp del: map_map)
  qed
qed

lemma wordsOf_format: "wordsOf (format t) = wordsOf t"
  by (rule format_preserves) (simp_all add: wordsOf_split)

lemma isSpace_not_digit: "isSpace c \<Longrightarrow> \<not> isDigit c"
  by (auto simp: isSpace_def isDigit_def)

lemma isSpace_not_dollar: "isSpace c \<Longrightarrow> c \<noteq> CHR ''$''"
  by (auto simp: isSpace_def)

lemma dollar_not_digit: "\<not> isDigit CHR ''$''"
  by (simp add: isDigit_def)

lemma placeholder_indices_split:
  "isSpace c \<Longrightarrow> placeholder_indices (a @ c # b) = placeholder_indices a @ placeholder_indices b"
proof (induction a)
  case Nil
  then show ?case by (simp add: isSpace_not_dollar)
next
  case (Cons x a)
  then have "takeWhile isDigit (a @ c # b) = takeWhile isDigit a"
    by (simp add: takeWhile_append_stop isSpace_not_digit)
  with Cons show ?case by simp
qed

lemma placeholder_indices_format: "placeholder_indices (format t) = placeholder_indices t"
  by (rule format_preserves) (simp_all add: placeholder_indices_split)

lemma digit_cases: "d < 10 \<Longrightarrow> d = 0 \<or> d = 1 \<or> d = 2 \<or> d = 3 \<or> d = 4 \<or> d = 5 \<or> d = 6 \<or> d = 7
    \<or> d = 8 \<or> d = (9 :: nat)"
  by arith

lemma digit_char_value: "d < 10 \<Longrightarrow> of_char (digit_char d) - 48 = d"
  using digit_cases [of d] by (auto simp: digit_char_def)

lemma digit_char_isDigit: "d < 10 \<Longrightarrow> isDigit (digit_char d)"
  using digit_cases [of d] by (auto simp: digit_char_def isDigit_def)

lemma show_nat_digits: "list_all isDigit (show_nat n)"
proof (induction n rule: show_nat.induct)
  case (1 n)
  then show ?case
    by (subst show_nat.simps) (simp add: digit_char_isDigit)
qed

lemma show_nat_nonempty: "show_nat n \<noteq> []"
  by (subst show_nat.simps) simp

lemma read_nat_snoc: "read_nat (ds @ [c]) = 10 * read_nat ds + (of_char c - 48)"
  by (simp add: read_nat_def)

lemma read_show_nat: "read_nat (show_nat n) = n"
proof (induction n rule: show_nat.induct)
  case (1 n)
  show ?case
  proof (cases "n < 10")
    case True
    then show ?thesis
      by (subst show_nat.simps) (simp add: read_nat_def digit_char_value)
  next
    case False
    with 1 have "read_nat (show_nat (n div 10)) = n div 10" by simp
    with False show ?thesis
      by (subst show_nat.simps) (simp add: read_nat_snoc digit_char_value)
  qed
qed

lemma show_nat_no_dollar: "CHR ''$'' \<notin> set (show_nat n)"
  using show_nat_digits [of n] dollar_not_digit by (auto simp: list_all_iff)

lemma placeholder_indices_no_dollar:
  "CHR ''$'' \<notin> set s \<Longrightarrow> placeholder_indices (s @ r) = placeholder_indices r"
  by (induction s) auto

lemma takeWhile_digits:
  "list_all isDigit ds \<Longrightarrow> \<not> starts_with_digit r \<Longrightarrow> takeWhile isDigit (ds @ r) = ds"
  by (induction ds) (auto simp: starts_with_digit_def split: list.splits)

lemma placeholder_indices_render:
  "clean ps \<Longrightarrow> placeholder_indices (render ps) = map fst (holes ps)"
proof (induction ps rule: clean.induct)
  case 1
  show ?case by simp
next
  case (2 s ps)
  then show ?case by (simp add: placeholder_indices_no_dollar)
next
  case (3 n v ps)
  then have "takeWhile isDigit (show_nat n @ render ps) = show_nat n"
    by (simp add: takeWhile_digits show_nat_digits)
  with 3 show ?case
    by (simp add: show_nat_nonempty read_show_nat placeholder_indices_no_dollar
        show_nat_no_dollar)
qed

text \<open>
  Claim C7, as amended.  The composer applies the formatter once, to the text that the
  processor returns, and passes the values on.  The formatter splits the text at line
  feeds, drops the blank lines, takes the least width of leading white space among the
  lines that are left, strips that many characters from each of them and joins them with
  line feeds.  The words of the text, and so the placeholders and their numbers, stay as
  they are.
\<close>

theorem formatter_strips_common_indent:
  "sql fragments args =
     (case process fragments args 1 of
        Inl e \<Rightarrow> Inl e
      | Inr q \<Rightarrow> Inr \<lparr>q_text = format (q_text q), q_values = q_values q\<rparr>)
   \<and> wordsOf (format t) = wordsOf t
   \<and> (if filter (\<lambda>p. \<not> blank p) (split_nl t) = [] then format t = []
       else \<exists>m. m \<in> set (map (\<lambda>p. length p - length (trimStart p))
                          (filter (\<lambda>p. \<not> blank p) (split_nl t))) \<and>
              list_all (\<lambda>p. m \<le> length p - length (trimStart p))
                (filter (\<lambda>p. \<not> blank p) (split_nl t)) \<and>
              list_all (\<lambda>p. list_all isSpace (take m p))
                (filter (\<lambda>p. \<not> blank p) (split_nl t)) \<and>
              format t = join [newline] (map (drop m) (filter (\<lambda>p. \<not> blank p) (split_nl t))) \<and>
              split_nl (format t) = map (drop m) (filter (\<lambda>p. \<not> blank p) (split_nl t)))"
proof (intro conjI)
  show "sql fragments args =
     (case process fragments args 1 of
        Inl e \<Rightarrow> Inl e
      | Inr q \<Rightarrow> Inr \<lparr>q_text = format (q_text q), q_values = q_values q\<rparr>)"
    by (simp add: sql_def del: process.simps)
  show "wordsOf (format t) = wordsOf t" by (rule wordsOf_format)
  let ?kept = "filter (\<lambda>p. \<not> blank p) (split_nl t)"
  show "if ?kept = [] then format t = []
       else \<exists>m. m \<in> set (map (\<lambda>p. length p - length (trimStart p)) ?kept) \<and>
              list_all (\<lambda>p. m \<le> length p - length (trimStart p)) ?kept \<and>
              list_all (\<lambda>p. list_all isSpace (take m p)) ?kept \<and>
              format t = join [newline] (map (drop m) ?kept) \<and>
              split_nl (format t) = map (drop m) ?kept"
  proof (cases "?kept = []")
    case True
    with format_pieces [OF refl, of t] show ?thesis by simp
  next
    case False
    from format_pieces [OF refl, of t] False
    have "\<exists>m. m \<in> set (map (\<lambda>p. length p - length (trimStart p)) ?kept) \<and>
            list_all (\<lambda>p. m \<le> length p - length (trimStart p)) ?kept \<and>
            format t = join [newline] (map (drop m) ?kept) \<and>
            split_nl (format t) = map (drop m) ?kept"
      by (simp only: if_False)
    then obtain m where
      m: "m \<in> set (map (\<lambda>p. length p - length (trimStart p)) ?kept)"
        "list_all (\<lambda>p. m \<le> length p - length (trimStart p)) ?kept"
        "format t = join [newline] (map (drop m) ?kept)"
        "split_nl (format t) = map (drop m) ?kept"
      by blast
    from m(2) have "list_all (\<lambda>p. list_all isSpace (take m p)) ?kept"
      unfolding list_all_iff [of _ ?kept] by (blast intro: take_leading_spaces)
    with m have "\<exists>m. m \<in> set (map (\<lambda>p. length p - length (trimStart p)) ?kept) \<and>
              list_all (\<lambda>p. m \<le> length p - length (trimStart p)) ?kept \<and>
              list_all (\<lambda>p. list_all isSpace (take m p)) ?kept \<and>
              format t = join [newline] (map (drop m) ?kept) \<and>
              split_nl (format t) = map (drop m) ?kept"
      by blast
    with False show ?thesis by (simp only: if_False)
  qed
qed

theorem formatter_strips_common_indent_witness:
  "format ([newline] @ ''    SELECT $1'' @ [newline] @ [newline] @ ''      FROM t'' @ [newline]
          @ ''  '') = ''SELECT $1'' @ [newline] @ ''  FROM t'' \<and>
   wordsOf (''SELECT $1'' @ [newline] @ ''  FROM t'') =
   wordsOf ([newline] @ ''    SELECT $1'' @ [newline] @ [newline] @ ''      FROM t'' @ [newline]
          @ ''  '')"
proof -
  have f: "format ([newline] @ ''    SELECT $1'' @ [newline] @ [newline] @ ''      FROM t''
      @ [newline] @ ''  '') = ''SELECT $1'' @ [newline] @ ''  FROM t''"
    by code_simp
  from formatter_strips_common_indent
    [of "[]" "[]" "[newline] @ ''    SELECT $1'' @ [newline] @ [newline] @ ''      FROM t''
      @ [newline] @ ''  ''"] f
  show ?thesis by (simp del: process.simps)
qed

text \<open>
  The claim as the specification states it fails: a blank line is dropped, not kept with its
  leading characters stripped.
\<close>

theorem formatter_every_line_counterexample:
  "format ([newline] @ ''  a'') = ''a'' \<and>
   format_every_line ([newline] @ ''  a'') = [newline] @ ''a'' \<and>
   format ([newline] @ ''  a'') \<noteq> format_every_line ([newline] @ ''  a'')"
  by code_simp

section \<open>Unsafe payloads\<close>


section \<open>The tests of the repository\<close>

text \<open>The expectations of the test file that use the functions above, evaluated.\<close>

lemma test_simple_substitution:
  "sql [[newline] @ ''      SELECT * FROM accounts WHERE id = '', [newline] @ ''    '']
     [Num 12345] =
   Inr \<lparr>q_text = ''SELECT * FROM accounts WHERE id = $1'', q_values = [Num 12345]\<rparr>"
  by code_simp

lemma test_identifiers:
  "sql [[newline] @ ''      SELECT * FROM '', '' WHERE id = 123'' @ [newline] @ ''    '']
     [identifier' ''accounts''] =
   Inr \<lparr>q_text = ''SELECT * FROM '' @ [dquote] @ ''accounts'' @ [dquote] @ '' WHERE id = 123'',
        q_values = []\<rparr>"
  "sql [[newline] @ ''      SELECT * FROM '', '' WHERE id = 123'']
     [identifier' (''accounts '' @ [dquote] @ '' --'')] =
   Inr \<lparr>q_text = ''SELECT * FROM '' @ [dquote] @ ''accounts '' @ [dquote, dquote] @ '' --''
          @ [dquote] @ '' WHERE id = 123'',
        q_values = []\<rparr>"
  by code_simp+

lemma test_templates:
  "sql [''SELECT * FROM accounts WHERE '', []] [template [''archived_at IS NULL''] []] =
   Inr \<lparr>q_text = ''SELECT * FROM accounts WHERE archived_at IS NULL'', q_values = []\<rparr>"
  by code_simp

lemma test_lists:
  "sql [[newline] @ ''      SELECT * FROM accounts WHERE id = ANY('', '')'' @ [newline] @ ''    '']
     [list [Num 123, Num 456] None] =
   Inr \<lparr>q_text = ''SELECT * FROM accounts WHERE id = ANY($1, $2)'',
        q_values = [Num 123, Num 456]\<rparr>"
  "sql [[newline] @ ''      SELECT * FROM accounts WHERE '', []]
     [list [template [''id = '', []] [Num 123],
            template [''archived_at IS NULL''] [],
            template [''name ILIKE '', []] [Str ''turbine%'']] (Some '' AND '')] =
   Inr \<lparr>q_text =
          ''SELECT * FROM accounts WHERE id = $1 AND archived_at IS NULL AND name ILIKE $2'',
        q_values = [Num 123, Str ''turbine%'']\<rparr>"
  by code_simp+

lemma test_unsafe:
  "sql [[newline] @ ''      SELECT * FROM accounts WHERE id = '', [newline] @ ''    '']
     [unsafe (Str (CHR 0x27 # ''12345'' @ [CHR 0x27]))] =
   Inr \<lparr>q_text = ''SELECT * FROM accounts WHERE id = '' @ CHR 0x27 # ''12345'' @ [CHR 0x27],
        q_values = []\<rparr>"
  by code_simp

lemma unwrap_after_test:
  "isIdentifier v \<or> isList v \<or> isUnsafe v \<or> isSubsql v \<Longrightarrow> unwrap v = Inr v"
  by (auto simp: unwrap_def isIdentifier_def isList_def isUnsafe_def isSubsql_def)

section \<open>The dispatch of \<open>processParam\<close>\<close>

text \<open>
  The equations of \<open>processParam\<close> are the chain of tests of the source, in its order:
  callable, identifier, list, unsafe, literal, and the error for everything else.
\<close>

lemma processParam_dispatch:
  "processParam param st =
     (if typeof param = ''function'' then
        (case param of Fn src result \<Rightarrow>
           if isSubsql result then
             (case result of Subsql fragments params \<Rightarrow>
                (case process fragments params (s_index st) of
                   Inl e \<Rightarrow> Inl e
                 | Inr processed \<Rightarrow>
                     Inr \<lparr>s_text = s_text st @ q_text processed,
                          s_values = s_values st @ q_values processed,
                          s_index = s_index st + length (q_values processed)\<rparr>))
           else processParam result st)
      else if isIdentifier param then
        (case param of Identifier v \<Rightarrow> Inr (st\<lparr>s_text := s_text st @ escapeIdentifier v\<rparr>))
      else if isList param then
        (case param of List items separator \<Rightarrow> processItems items separator st)
      else if isUnsafe param then
        (case param of Unsafe v \<Rightarrow> Inr (st\<lparr>s_text := s_text st @ toText v\<rparr>))
      else if isLiteral param then
        Inr \<lparr>s_text = s_text st @ ''$'' @ show_nat (s_index st),
             s_values = s_values st @ [param], s_index = s_index st + 1\<rparr>
      else Inl UnsupportedValueType)"
proof (cases param)
  case (Fn src result)
  then show ?thesis
    by (cases result)
       (simp_all add: typeof_def isSubsql_def isBox_def box_type_def del: process.simps)
qed (simp_all add: typeof_def isIdentifier_def isList_def isUnsafe_def isBox_def box_type_def
       isLiteral_def instanceof_Date_def instanceof_Buffer_def isView_def)

section \<open>Callables\<close>

text \<open>
  Claim C3.  A callable is invoked with \<open>subsql\<close>.  When it returns a deferred bundle, the
  fragments and parameters of the bundle are processed from the current cursor, the text and
  the values are appended and the cursor advances by the number of values; when it returns
  anything else, \<open>processParam\<close> goes on with what it returned.  Composing with the callable
  \<open>(sql) => sql`ANY(${123}, ${456})`\<close> gives a text that ends in \<open>ANY($1, $2)\<close> and the
  values 123 and 456; after an earlier literal the same bundle is numbered from 2.
\<close>

theorem callable_continues_numbering:
  "processParam (Fn src (subsql fragments params)) st =
     (case process fragments params (s_index st) of
        Inl e \<Rightarrow> Inl e
      | Inr processed \<Rightarrow>
          Inr \<lparr>s_text = s_text st @ q_text processed,
               s_values = s_values st @ q_values processed,
               s_index = s_index st + length (q_values processed)\<rparr>)
   \<and> (\<not> isSubsql result \<longrightarrow> processParam (Fn src result) st = processParam result st)
   \<and> sql [[newline] @ ''      SELECT * FROM accounts WHERE id = '', [newline] @ ''    '']
        [Fn ''(sql) => sql`ANY(${123}, ${456})`''
           (subsql [''ANY('', '', '', '')''] [Num 123, Num 456])] =
       Inr \<lparr>q_text = ''SELECT * FROM accounts WHERE id = ANY($1, $2)'',
            q_values = [Num 123, Num 456]\<rparr>
   \<and> sql [''WHERE a = '', '' AND id = '', []]
        [Str ''x'',
         Fn ''(sql) => sql`ANY(${123}, ${456})`''
           (subsql [''ANY('', '', '', '')''] [Num 123, Num 456])] =
       Inr \<lparr>q_text = ''WHERE a = $1 AND id = ANY($2, $3)'',
            q_values = [Str ''x'', Num 123, Num 456]\<rparr>"
proof (intro conjI impI)
  show "processParam (Fn src (subsql fragments params)) st =
     (case process fragments params (s_index st) of
        Inl e \<Rightarrow> Inl e
      | Inr processed \<Rightarrow>
          Inr \<lparr>s_text = s_text st @ q_text processed,
               s_values = s_values st @ q_values processed,
               s_index = s_index st + length (q_values processed)\<rparr>)"
    unfolding subsql_def by (subst processParam.simps) simp
  show "processParam (Fn src result) st = processParam result st" if "\<not> isSubsql result"
    using that by (cases result) (simp_all add: isSubsql_def isBox_def box_type_def)
  show "sql [[newline] @ ''      SELECT * FROM accounts WHERE id = '', [newline] @ ''    '']
        [Fn ''(sql) => sql`ANY(${123}, ${456})`''
           (subsql [''ANY('', '', '', '')''] [Num 123, Num 456])] =
       Inr \<lparr>q_text = ''SELECT * FROM accounts WHERE id = ANY($1, $2)'',
            q_values = [Num 123, Num 456]\<rparr>"
    by code_simp
  show "sql [''WHERE a = '', '' AND id = '', []]
        [Str ''x'',
         Fn ''(sql) => sql`ANY(${123}, ${456})`''
           (subsql [''ANY('', '', '', '')''] [Num 123, Num 456])] =
       Inr \<lparr>q_text = ''WHERE a = $1 AND id = ANY($2, $3)'',
            q_values = [Str ''x'', Num 123, Num 456]\<rparr>"
    by code_simp
qed

theorem callable_continues_numbering_witness:
  "\<not> isSubsql (Num 5) \<and>
   processParam (Fn ''() => 5'' (Num 5)) \<lparr>s_text = ''a'', s_values = [Null], s_index = 2\<rparr> =
   Inr \<lparr>s_text = ''a$2'', s_values = [Null, Num 5], s_index = 3\<rparr>"
  using callable_continues_numbering
    [of "''() => 5''" "[]" "[]" "\<lparr>s_text = ''a'', s_values = [Null], s_index = 2\<rparr>" "Num 5"]
  by (simp add: isSubsql_def isBox_def isLiteral_def typeof_def show_nat.simps digit_char_def)

section \<open>No parameters\<close>

text \<open>
  Claim C9, as amended.  For a fragment sequence with no parameter (one fragment, or none),
  the processor returns the concatenation of the fragments as its text and no values; the
  text that the composer returns is the formatter applied to that concatenation.
\<close>

theorem no_params_text:
  "length fragments \<le> 1 \<longrightarrow>
     process fragments [] i = Inr \<lparr>q_text = concat fragments, q_values = []\<rparr> \<and>
     sql fragments [] = Inr \<lparr>q_text = format (concat fragments), q_values = []\<rparr>"
proof
  assume "length fragments \<le> 1"
  then consider "fragments = []" | f where "fragments = [f]"
    by (cases fragments) (auto simp: le_Suc_eq)
  then show "process fragments [] i = Inr \<lparr>q_text = concat fragments, q_values = []\<rparr> \<and>
     sql fragments [] = Inr \<lparr>q_text = format (concat fragments), q_values = []\<rparr>"
    by cases (simp_all add: sql_def)
qed

theorem no_params_text_witness:
  "length [''  SELECT 1''] \<le> 1 \<and>
   process [''  SELECT 1''] [] 1 = Inr \<lparr>q_text = ''  SELECT 1'', q_values = []\<rparr> \<and>
   sql [''  SELECT 1''] [] = Inr \<lparr>q_text = ''SELECT 1'', q_values = []\<rparr>"
proof -
  have f: "format ''  SELECT 1'' = ''SELECT 1''" by code_simp
  show ?thesis using no_params_text [of "[''  SELECT 1'']" 1] by (simp add: f)
qed

text \<open>
  The claim as the specification states it fails: the composer strips the leading white
  space of the only fragment.
\<close>

theorem no_params_text_counterexample:
  "sql [''  SELECT 1''] [] = Inr \<lparr>q_text = ''SELECT 1'', q_values = []\<rparr> \<and>
   ''SELECT 1'' \<noteq> concat [''  SELECT 1'']"
  by code_simp

section \<open>Placeholder numbering\<close>

lemma zip_fst_snd: "zip (map fst xs) (map snd xs) = xs"
  by (induction xs) auto

text \<open>
  Claim C1, as amended.  When the composer returns, its text is the formatter applied to the
  rendering of the pieces appended by the processor, with the same words; the values are
  those of the placeholders among the pieces, in order; and these placeholders are numbered
  1, 2, ... up to the number of values, the placeholder \<open>i + 1\<close> being the one appended for
  \<open>values[i]\<close>, whatever the nesting of bundles and lists.
\<close>

theorem placeholders_numbered_from_one:
  assumes "sql fragments args = Inr out"
  shows "\<exists>pcs. pieces fragments args 1 = Inr pcs \<and>
           q_text out = format (render pcs) \<and>
           wordsOf (q_text out) = wordsOf (render pcs) \<and>
           q_values out = map snd (holes pcs) \<and>
           holes pcs = zip [1..<Suc (length (q_values out))] (q_values out)"
proof -
  from assms obtain q where q: "process fragments args 1 = Inr q"
    and out: "out = \<lparr>q_text = format (q_text q), q_values = q_values q\<rparr>"
    by (auto simp: sql_def split: sum.splits)
  from q obtain pcs where pcs: "piecesLoop fragments args 1 = Inr pcs"
    and q': "q = \<lparr>q_text = render pcs, q_values = map snd (holes pcs)\<rparr>"
    by (auto simp: process_pieces(4) map_sum_iffs simp del: process.simps)
  have "map fst (holes pcs) = [1..<1 + length (holes pcs)]"
    using holes_numbered(3) [OF pcs] .
  then have "holes pcs = zip [1..<Suc (length (holes pcs))] (map snd (holes pcs))"
    using zip_fst_snd [of "holes pcs"] by simp
  with pcs q' out show ?thesis by (simp add: pieces_def wordsOf_format)
qed

theorem placeholders_numbered_from_one_witness:
  "sql [''SELECT * FROM t WHERE '', []]
     [list [template [''id = '', []] [Num 123],
            template [''archived_at IS NULL''] [],
            template [''name ILIKE '', []] [Str ''turbine%'']] (Some '' AND '')] =
   Inr \<lparr>q_text = ''SELECT * FROM t WHERE id = $1 AND archived_at IS NULL AND name ILIKE $2'',
        q_values = [Num 123, Str ''turbine%'']\<rparr> \<and>
   (\<exists>pcs. pieces [''SELECT * FROM t WHERE '', []]
            [list [template [''id = '', []] [Num 123],
                   template [''archived_at IS NULL''] [],
                   template [''name ILIKE '', []] [Str ''turbine%'']]
               (Some '' AND '')] 1 = Inr pcs \<and>
          holes pcs = [(1, Num 123), (2, Str ''turbine%'')])"
proof -
  have e: "sql [''SELECT * FROM t WHERE '', []]
     [list [template [''id = '', []] [Num 123],
            template [''archived_at IS NULL''] [],
            template [''name ILIKE '', []] [Str ''turbine%'']] (Some '' AND '')] =
   Inr \<lparr>q_text = ''SELECT * FROM t WHERE id = $1 AND archived_at IS NULL AND name ILIKE $2'',
        q_values = [Num 123, Str ''turbine%'']\<rparr>"
    by code_simp
  from placeholders_numbered_from_one [OF e] e show ?thesis
    by (auto simp: upt_rec)
qed

text \<open>
  The claim as the specification states it fails on the text: the processor passes the text
  of the caller through as it is, so a fragment may hold a placeholder of its own, and a
  fragment that begins with a digit runs into the placeholder before it.
\<close>

theorem placeholder_scan_counterexample:
  "sql [''SELECT $7''] [] = Inr \<lparr>q_text = ''SELECT $7'', q_values = []\<rparr> \<and>
   sort (remdups (placeholder_indices ''SELECT $7'')) \<noteq> [1..<Suc (length ([] :: jsval list))] \<and>
   sql [''id = '', ''0''] [Num 5] = Inr \<lparr>q_text = ''id = $10'', q_values = [Num 5]\<rparr> \<and>
   sort (remdups (placeholder_indices ''id = $10'')) \<noteq> [1..<Suc (length [Num 5])]"
  by code_simp

section \<open>Surplus parameters\<close>

lemma processLoop_excess:
  "fr \<noteq> [] \<Longrightarrow> length fr \<le> length ps \<Longrightarrow>
   processLoop fr ps st =
     (case processLoop fr (take (length fr - 1) ps) st of
        Inl e \<Rightarrow> Inl e
      | Inr st' \<Rightarrow> Inl ParameterCountMismatch)"
proof (induction fr arbitrary: ps st)
  case Nil
  then show ?case by simp
next
  case (Cons f fs)
  show ?case
  proof (cases fs)
    case Nil
    with Cons.prems show ?thesis by (cases ps) simp_all
  next
    case (Cons g gs)
    with Cons.prems obtain p ps' where ps: "ps = p # ps'" "length fs \<le> length ps'"
      by (cases ps) auto
    show ?thesis
      using Cons.IH [of ps'] ps Cons
      by (auto split: sum.splits)
  qed
qed

lemma paired_no_mismatch:
  "paired v \<Longrightarrow> processParam v st \<noteq> Inl ParameterCountMismatch"
  "list_all paired xs \<Longrightarrow> processItems xs sep st \<noteq> Inl ParameterCountMismatch"
  "length fr = Suc (length ps) \<Longrightarrow> list_all paired ps \<Longrightarrow>
     processLoop fr ps st \<noteq> Inl ParameterCountMismatch"
  "length fr = Suc (length ps) \<Longrightarrow> list_all paired ps \<Longrightarrow>
     process fr ps i \<noteq> Inl ParameterCountMismatch"
proof (induction v st and xs sep st and fr ps st and fr ps i
    rule: processParam_processItems_processLoop_process.induct)
  case (1 src result st)
  then show ?case by (cases result) (auto split: sum.splits)
qed (auto split: sum.splits if_splits)

text \<open>
  Claim C6, as amended.  With at least one fragment and at least as many parameters as
  fragments, processing fails: with the error of the parameters that do have a slot when
  one of them fails, and with \<open>ParameterCountMismatch\<close> otherwise.  When the invocation
  and every bundle inside it have one fragment more than parameters,
  \<open>ParameterCountMismatch\<close> is not raised.
\<close>

theorem surplus_params_fail:
  "(fragments \<noteq> [] \<and> length fragments \<le> length params \<longrightarrow>
      process fragments params i =
        (case process fragments (take (length fragments - 1) params) i of
           Inl e \<Rightarrow> Inl e
         | Inr processed \<Rightarrow> Inl ParameterCountMismatch))
   \<and> (length fragments = Suc (length params) \<and> list_all paired params \<longrightarrow>
        process fragments params i \<noteq> Inl ParameterCountMismatch)"
proof (intro conjI impI)
  assume a: "fragments \<noteq> [] \<and> length fragments \<le> length params"
  let ?st = "\<lparr>s_text = [], s_values = [], s_index = i\<rparr>"
  from a processLoop_excess [of fragments params ?st]
  show "process fragments params i =
        (case process fragments (take (length fragments - 1) params) i of
           Inl e \<Rightarrow> Inl e
         | Inr processed \<Rightarrow> Inl ParameterCountMismatch)"
    by (simp split: sum.splits)
next
  assume "length fragments = Suc (length params) \<and> list_all paired params"
  then show "process fragments params i \<noteq> Inl ParameterCountMismatch"
    using paired_no_mismatch(4) [of fragments params i] by blast
qed

theorem surplus_params_fail_witness:
  "[''a'', ''b''] \<noteq> [] \<and> length [''a'', ''b''] \<le> length [Num 1, Num 2] \<and>
   process [''a'', ''b''] [Num 1, Num 2] 1 = Inl ParameterCountMismatch \<and>
   length [''a'', ''b''] = Suc (length [Fn ''t'' (subsql [''x = '', []] [Num 1])]) \<and>
   list_all paired [Fn ''t'' (subsql [''x = '', []] [Num 1])] \<and>
   process [''a'', ''b''] [Fn ''t'' (subsql [''x = '', []] [Num 1])] 1 \<noteq>
     Inl ParameterCountMismatch"
proof -
  have p: "process [''a'', ''b''] (take (length [''a'', ''b''] - 1) [Num 1, Num 2]) 1 =
      Inr \<lparr>q_text = ''a$1b'', q_values = [Num 1]\<rparr>"
    by code_simp
  have l: "list_all paired [Fn ''t'' (subsql [''x = '', []] [Num 1])]"
    by (simp add: subsql_def)
  from surplus_params_fail [of "[''a'', ''b'']" "[Num 1, Num 2]" 1]
    surplus_params_fail [of "[''a'', ''b'']" "[Fn ''t'' (subsql [''x = '', []] [Num 1])]" 1] p l
  show ?thesis by (simp del: process.simps)
qed

text \<open>
  The claim as the specification states it fails: a parameter that has a slot and is refused
  raises its own error before the count is looked at.
\<close>

theorem surplus_params_counterexample:
  "length [''a'', ''b''] \<le> length [Obj ''[object Object]'', Num 1] \<and>
   process [''a'', ''b''] [Obj ''[object Object]'', Num 1] 1 = Inl UnsupportedValueType \<and>
   process [''a'', ''b''] [Obj ''[object Object]'', Num 1] 1 \<noteq> Inl ParameterCountMismatch"
  by code_simp

section \<open>Lists\<close>

lemma join_Cons: "ts \<noteq> [] \<Longrightarrow> join sep (t # ts) = t @ sep @ join sep ts"
  by (cases ts) simp_all

lemma length_join:
  "length (join sep ts) = sum_list (map length ts) + (length ts - 1) * length sep"
  by (induction sep ts rule: join.induct) simp_all

lemma processParam_frame:
  "processParam v st =
     map_sum id
       (\<lambda>d. \<lparr>s_text = s_text st @ s_text d, s_values = s_values st @ s_values d,
             s_index = s_index d\<rparr>)
       (processParam v \<lparr>s_text = [], s_values = [], s_index = s_index st\<rparr>)"
  by (cases "piecesParam v (s_index st)") (simp_all add: process_pieces(1) after_pieces_def)

lemma processParam_index:
  "processParam v \<lparr>s_text = [], s_values = [], s_index = i\<rparr> = Inr d \<Longrightarrow>
   s_index d = i + length (s_values d)"
  by (auto simp: process_pieces(1) after_pieces_def map_sum_iffs)

lemma each_item_length: "each_item xs i = Inr ds \<Longrightarrow> length ds = length xs"
  by (induction xs arbitrary: i ds) (auto split: sum.splits)

lemma processItems_each_item:
  "processItems xs sep st =
     (case each_item xs (s_index st) of
        Inl e \<Rightarrow> Inl e
      | Inr ds \<Rightarrow>
          Inr \<lparr>s_text = s_text st @ join sep (map fst ds),
               s_values = s_values st @ concat (map snd ds),
               s_index = s_index st + length (concat (map snd ds))\<rparr>)"
proof (induction xs arbitrary: st)
  case Nil
  show ?case by simp
next
  case (Cons x rest)
  let ?fresh = "\<lparr>s_text = [], s_values = [], s_index = s_index st\<rparr>"
  show ?case
  proof (cases "processParam x ?fresh")
    case (Inl e)
    then show ?thesis by (simp add: processParam_frame [of x st])
  next
    case (Inr d)
    let ?st' = "\<lparr>s_text = s_text st @ s_text d, s_values = s_values st @ s_values d,
                 s_index = s_index d\<rparr>"
    let ?st'' = "if rest \<noteq> [] then ?st'\<lparr>s_text := s_text ?st' @ sep\<rparr> else ?st'"
    have step: "processParam x st = Inr ?st'"
      by (simp add: processParam_frame [of x st] Inr)
    have idx: "s_index d = s_index st + length (s_values d)"
      using processParam_index [OF Inr] by simp
    have i'': "s_index ?st'' = s_index d" by simp
    show ?thesis
    proof (cases "each_item rest (s_index d)")
      case (Inl e)
      then show ?thesis
        using Cons.IH [of ?st''] by (simp add: step Inr i'' del: processParam.simps)
    next
      case ds: (Inr ds)
      have len: "length ds = length rest" using each_item_length [OF ds] .
      show ?thesis
      proof (cases "rest = []")
        case True
        with len have "ds = []" by simp
        with True ds show ?thesis
          using Cons.IH [of ?st''] by (simp add: step Inr idx del: processParam.simps)
      next
        case False
        with len have "map fst ds \<noteq> []" by auto
        from join_Cons [OF this] False ds show ?thesis
          using Cons.IH [of ?st''] by (simp add: step Inr idx del: processParam.simps)
      qed
    qed
  qed
qed

text \<open>
  Claim C5.  Processing a List of N items with separator S processes the items in order, the
  cursor going from one to the next, and appends their texts with S between consecutive
  ones: S stands N - 1 times between the N texts, and not at all for no item or one item.
\<close>

theorem list_separator_between_items:
  "processParam (List items S) st =
     (case each_item items (s_index st) of
        Inl e \<Rightarrow> Inl e
      | Inr ds \<Rightarrow>
          Inr \<lparr>s_text = s_text st @ join S (map fst ds),
               s_values = s_values st @ concat (map snd ds),
               s_index = s_index st + length (concat (map snd ds))\<rparr>)
   \<and> (each_item items i = Inr ds \<longrightarrow>
        length ds = length items \<and>
        length (join S (map fst ds)) =
          sum_list (map length (map fst ds)) + (length items - 1) * length S)
   \<and> join S [] = [] \<and> join S [t] = t
   \<and> join S (t # u # ts) = t @ S @ join S (u # ts)"
  using each_item_length [of items i ds] length_join [of S "map fst ds"]
  by (simp add: processItems_each_item)

theorem list_separator_between_items_witness:
  "each_item [Num 1, Identifier ''x'', Num 2] 1 =
     Inr [(''$1'', [Num 1]), (escapeIdentifier ''x'', []), (''$2'', [Num 2])] \<and>
   processParam (List [Num 1, Identifier ''x'', Num 2] '', '')
       \<lparr>s_text = ''('', s_values = [], s_index = 1\<rparr> =
     Inr \<lparr>s_text = ''($1, '' @ escapeIdentifier ''x'' @ '', $2'',
          s_values = [Num 1, Num 2], s_index = 3\<rparr> \<and>
   length (join '', '' [''$1'', escapeIdentifier ''x'', ''$2'']) =
     sum_list (map length [''$1'', escapeIdentifier ''x'', ''$2'']) + (3 - 1) * length '', ''"
proof -
  have e: "each_item [Num 1, Identifier ''x'', Num 2] 1 =
     Inr [(''$1'', [Num 1]), (escapeIdentifier ''x'', []), (''$2'', [Num 2])]"
    by code_simp
  from list_separator_between_items
    [of "[Num 1, Identifier ''x'', Num 2]" "'', ''"
      "\<lparr>s_text = ''('', s_values = [], s_index = 1\<rparr>" 1
      "[(''$1'', [Num 1]), (escapeIdentifier ''x'', []), (''$2'', [Num 2])]"] e
  show ?thesis by (simp del: processParam.simps each_item.simps)
qed

end
